theory Spec2Isabelle
  imports Complex_Main "HOL-Library.Char_ord" "HOL-Library.List_Lexorder"
begin

section \<open>Baby-names dataset: data model\<close>

text \<open>
  The embedding follows \<^verbatim>\<open>names_model.py\<close>, \<^verbatim>\<open>names_operations.py\<close> and the
  \<^verbatim>\<open>nearest\<close> command of \<^verbatim>\<open>names.py\<close>.

  A Python \<^verbatim>\<open>float\<close> is the \<^typ>\<open>real\<close> number it stands for; infinities and NaN
  are outside the model. The totals and the scores derived from them are taken exact
  (\<open>total_count\<close>, \<open>gender_score\<close>, the yearly scores and the time series). Where the
  source orders entities by comparing computed distances, which rounding can make equal or
  unequal, the rounding of every float operation is written out (section on floating-point
  arithmetic). Python's \<^verbatim>\<open>int\<close> is \<^typ>\<open>int\<close>, a
  \<^verbatim>\<open>str\<close> is a \<^typ>\<open>string\<close> compared by code point (\<open>Char_ord\<close> with the
  lexicographic order on lists), and an attribute that may be \<^verbatim>\<open>None\<close> is an
  \<^typ>\<open>'a option\<close>.
\<close>

datatype error = KeyError string | TypeError | SystemExit int

record YearlyCount =
  year :: int
  count :: real

record NameData =
  name :: string
  boys_total :: real
  girls_total :: real
  boys_yearly :: "YearlyCount list option"
  girls_yearly :: "YearlyCount list option"

record Ranks =
  overall :: int
  boys :: int
  girls :: int

definition total_count :: "NameData \<Rightarrow> real" where
  "total_count nd = boys_total nd + girls_total nd"

definition gender_score :: "NameData \<Rightarrow> real" where
  "gender_score nd =
     (if total_count nd = 0 then 0
      else (girls_total nd - boys_total nd) / total_count nd)"

definition has_yearly_data :: "NameData \<Rightarrow> bool" where
  "has_yearly_data nd \<longleftrightarrow> boys_yearly nd \<noteq> None \<or> girls_yearly nd \<noteq> None"

section \<open>Python built-ins used by the source\<close>

text \<open>
  A \<^verbatim>\<open>dict\<close> keeps its keys in insertion order and the catalogue is listed in that
  order, so a dictionary is an association list with distinct keys: assigning to a key that
  is present replaces the value where it stands, assigning to a new key appends it.
\<close>

type_synonym ('k, 'v) dict = "('k \<times> 'v) list"

primrec dict_set :: "'k \<Rightarrow> 'v \<Rightarrow> ('k, 'v) dict \<Rightarrow> ('k, 'v) dict" where
  "dict_set k v [] = [(k, v)]"
| "dict_set k v (p # ps) = (if fst p = k then (k, v) # ps else p # dict_set k v ps)"

definition dict_keys :: "('k, 'v) dict \<Rightarrow> 'k list" where
  "dict_keys d = map fst d"

definition dict_values :: "('k, 'v) dict \<Rightarrow> 'v list" where
  "dict_values d = map snd d"

text \<open>\<^verbatim>\<open>d.get(k)\<close>, \<^verbatim>\<open>d.get(k, default)\<close> and \<^verbatim>\<open>d[k]\<close>, which raises
  \<^verbatim>\<open>KeyError\<close> on a missing key. A test \<^verbatim>\<open>k in d\<close> followed by \<^verbatim>\<open>d[k]\<close> is a case
  distinction on \<open>dict_get d k\<close>.\<close>

definition dict_get :: "('k, 'v) dict \<Rightarrow> 'k \<Rightarrow> 'v option" where
  "dict_get d k = map_of d k"

definition dict_get_default :: "('k, 'v) dict \<Rightarrow> 'k \<Rightarrow> 'v \<Rightarrow> 'v" where
  "dict_get_default d k dflt = (case map_of d k of None \<Rightarrow> dflt | Some v \<Rightarrow> v)"

definition dict_index :: "(string, 'v) dict \<Rightarrow> string \<Rightarrow> error + 'v" where
  "dict_index d k = (case map_of d k of None \<Rightarrow> Inl (KeyError k) | Some v \<Rightarrow> Inr v)"

text \<open>\<^verbatim>\<open>dict(zip(ks, vs))\<close> and a dict comprehension: the pairs are assigned in order, so
  the last pair of a key gives its value and the first gives its position.\<close>

definition dict_of_pairs :: "('k \<times> 'v) list \<Rightarrow> ('k, 'v) dict" where
  "dict_of_pairs ps = fold (\<lambda>(k, v) d. dict_set k v d) ps []"

text \<open>\<^verbatim>\<open>sorted(xs, key=f, reverse=True)\<close>: descending by key, and equal keys keep their
  original order (Python's sort is stable also when reversed). \<^const>\<open>sort_key\<close> is a
  stable insertion sort, so sorting on the negated key gives that list.\<close>

definition sorted_desc :: "('a \<Rightarrow> real) \<Rightarrow> 'a list \<Rightarrow> 'a list" where
  "sorted_desc f xs = sort_key (\<lambda>x. - f x) xs"

text \<open>The slice \<^verbatim>\<open>xs[:n]\<close>: the first \<open>n\<close> elements for \<open>n \<ge> 0\<close>, all but the last
  \<open>-n\<close> for a negative \<open>n\<close>.\<close>

definition slice_to :: "int \<Rightarrow> 'a list \<Rightarrow> 'a list" where
  "slice_to n xs = (if 0 \<le> n then take (nat n) xs else take (length xs - nat (- n)) xs)"

text \<open>
  \<^verbatim>\<open>str.lower()\<close> on ASCII names: the letters \<open>A\<close> to \<open>Z\<close> are lower-cased and every
  other character is left as it is. Names with letters outside ASCII, which Python
  lower-cases as well, are outside the model. The general statements below hold for any
  lower-casing function; the examples are ASCII.
\<close>

definition lower_char :: "char \<Rightarrow> char" where
  "lower_char c =
     (let n = (of_char c :: nat) in if 65 \<le> n \<and> n \<le> 90 then char_of (n + 32) else c)"

definition lower :: "string \<Rightarrow> string" where
  "lower s = map lower_char s"

text \<open>Truth value of an optional list: \<^verbatim>\<open>None\<close> and \<^verbatim>\<open>[]\<close> are both false.\<close>

definition truthy :: "'a list option \<Rightarrow> bool" where
  "truthy x \<longleftrightarrow> (case x of None \<Rightarrow> False | Some xs \<Rightarrow> xs \<noteq> [])"

text \<open>\<^verbatim>\<open>x or []\<close> for an optional list.\<close>

definition or_empty :: "'a list option \<Rightarrow> 'a list" where
  "or_empty x = (case x of None \<Rightarrow> [] | Some xs \<Rightarrow> xs)"

section \<open>Floating-point arithmetic\<close>

text \<open>
  Binary64 arithmetic on the normal range: the result of an operation is the exact result
  rounded to the nearest number with a 53-bit significand, a tie going to the even
  significand. Overflow and subnormal numbers are not modelled. \<open>exponent x\<close> is the
  \<open>e\<close> with \<open>2 ^ e \<le> x < 2 ^ (e + 1)\<close> for a positive \<open>x\<close>.
\<close>

definition pow2 :: "int \<Rightarrow> real" where
  "pow2 e = (if 0 \<le> e then 2 ^ nat e else 1 / 2 ^ nat (- e))"

function exponent :: "real \<Rightarrow> int" where
  "exponent x =
     (if x \<le> 0 then 0
      else if 2 \<le> x then exponent (x / 2) + 1
      else if x < 1 then exponent (2 * x) - 1
      else 0)"
  by pat_completeness auto
termination
proof (relation "measure (\<lambda>x. nat \<bar>\<lfloor>log 2 x\<rfloor>\<bar>)")
  show "wf (measure (\<lambda>x. nat \<bar>\<lfloor>log 2 x\<rfloor>\<bar>))" by simp
next
  fix x :: real
  assume "\<not> x \<le> 0" and "2 \<le> x"
  then have "log 2 (x / 2) = log 2 x - 1" and "1 \<le> log 2 x"
    by (simp_all add: log_divide le_log_iff)
  then have "\<lfloor>log 2 (x / 2)\<rfloor> = \<lfloor>log 2 x\<rfloor> - 1" and "1 \<le> \<lfloor>log 2 x\<rfloor>"
    by simp_all
  then show "(x / 2, x) \<in> measure (\<lambda>x. nat \<bar>\<lfloor>log 2 x\<rfloor>\<bar>)"
    by simp
next
  fix x :: real
  assume "\<not> x \<le> 0" and "x < 1"
  then have "log 2 (2 * x) = log 2 x + 1" and "log 2 x < 0"
    by (simp_all add: log_mult)
  then have "\<lfloor>log 2 (2 * x)\<rfloor> = \<lfloor>log 2 x\<rfloor> + 1" and "\<lfloor>log 2 x\<rfloor> \<le> - 1"
    by (simp_all add: floor_le_iff)
  then show "(2 * x, x) \<in> measure (\<lambda>x. nat \<bar>\<lfloor>log 2 x\<rfloor>\<bar>)"
    by simp
qed

definition round_half_even :: "real \<Rightarrow> int" where
  "round_half_even m =
     (let f = \<lfloor>m\<rfloor>
      in if m - of_int f < 1 / 2 then f
         else if 1 / 2 < m - of_int f then f + 1
         else if even f then f else f + 1)"

definition float_round :: "real \<Rightarrow> real" where
  "float_round x =
     (if x = 0 then 0
      else (let e = exponent \<bar>x\<bar>
            in sgn x * of_int (round_half_even (\<bar>x\<bar> * pow2 (52 - e))) * pow2 (e - 52)))"

definition float_add :: "real \<Rightarrow> real \<Rightarrow> real" where
  "float_add x y = float_round (x + y)"

definition float_sub :: "real \<Rightarrow> real \<Rightarrow> real" where
  "float_sub x y = float_round (x - y)"

definition float_div :: "real \<Rightarrow> real \<Rightarrow> real" where
  "float_div x y = float_round (x / y)"

text \<open>
  The property \<^verbatim>\<open>NameData.gender_score\<close> with the rounding of its three operations
  written out; \<open>gender_score\<close> is the same quotient taken exact.
\<close>

definition gender_score_float :: "NameData \<Rightarrow> real" where
  "gender_score_float nd =
     (if float_add (boys_total nd) (girls_total nd) = 0 then 0
      else float_div (float_sub (girls_total nd) (boys_total nd))
                     (float_add (boys_total nd) (girls_total nd)))"

section \<open>The catalogue\<close>

record NamesDataset =
  names :: "(string, NameData) dict"
  yearly_loaded :: bool
  ranks_cache :: "(string, Ranks) dict option"

text \<open>
  Reading and reshaping the CSV files is done by pandas. \<^verbatim>\<open>NamesDataset.load\<close> is modelled
  from the two frames that \<^verbatim>\<open>_load_aggregated\<close> returns, each a list of rows
  \<open>(name, total_count)\<close> in file order.
\<close>

type_synonym totals_frame = "(string \<times> real) list"

definition load :: "totals_frame \<Rightarrow> totals_frame \<Rightarrow> NamesDataset" where
  "load boys_df girls_df =
     (let boys_dict = dict_of_pairs boys_df;
          girls_dict = dict_of_pairs girls_df;
          all_names = set (dict_keys boys_dict) \<union> set (dict_keys girls_dict)
      in \<lparr>names =
            fold (\<lambda>nm d. dict_set (lower nm)
                    \<lparr>name = nm,
                     boys_total = dict_get_default boys_dict nm 0,
                     girls_total = dict_get_default girls_dict nm 0,
                     boys_yearly = None, girls_yearly = None\<rparr> d)
                 (sorted_list_of_set all_names) [],
          yearly_loaded = False,
          ranks_cache = None\<rparr>)"

definition get_name :: "NamesDataset \<Rightarrow> string \<Rightarrow> NameData option" where
  "get_name ds nm = dict_get (names ds) (lower nm)"

definition get_all_names :: "NamesDataset \<Rightarrow> NameData list" where
  "get_all_names ds = dict_values (names ds)"

subsection \<open>Yearly data\<close>

text \<open>
  \<^verbatim>\<open>load_yearly_data\<close> is modelled from the two long-format frames that
  \<^verbatim>\<open>_load_yearly_raw\<close> returns, rows \<open>(name, name_lower, year, count)\<close>.
  \<^verbatim>\<open>sort_values("name_lower")\<close> is taken as a stable sort on that column, which is what
  pandas does on a short frame. On a longer frame its default sort may return the rows of
  one name in another order; that order is outside the model. No general statement below
  depends on the order of the entries within a yearly sequence, and the examples use short
  frames.
\<close>

type_synonym yearly_frame = "(string \<times> string \<times> int \<times> real) list"

fun group_rows ::
  "yearly_frame \<Rightarrow> (string, YearlyCount list) dict \<Rightarrow> string option \<Rightarrow> YearlyCount list \<Rightarrow>
     (string, YearlyCount list) dict \<times> string option \<times> YearlyCount list" where
  "group_rows [] result current_name current_list = (result, current_name, current_list)"
| "group_rows ((nm, nl, y, c) # rows) result current_name current_list =
     (if Some nl \<noteq> current_name
      then group_rows rows
             (case current_name of None \<Rightarrow> result
              | Some cn \<Rightarrow> dict_set cn current_list result)
             (Some nl) [\<lparr>year = y, count = c\<rparr>]
      else group_rows rows result current_name (current_list @ [\<lparr>year = y, count = c\<rparr>]))"

definition build_yearly_dict :: "yearly_frame \<Rightarrow> (string, YearlyCount list) dict" where
  "build_yearly_dict df =
     (case group_rows df [] None [] of
        (result, current_name, current_list) \<Rightarrow>
          (case current_name of None \<Rightarrow> result
           | Some cn \<Rightarrow> dict_set cn current_list result))"

definition populate ::
  "(string, YearlyCount list) dict \<Rightarrow> (string, YearlyCount list) dict \<Rightarrow>
     string \<times> NameData \<Rightarrow> string \<times> NameData" where
  "populate boys_yearly_dict girls_yearly_dict entry =
     (case entry of (name_lower, name_data) \<Rightarrow>
        (let nd1 = (case dict_get boys_yearly_dict name_lower of
                      None \<Rightarrow> name_data
                    | Some ys \<Rightarrow> name_data\<lparr>boys_yearly := Some ys\<rparr>);
             nd2 = (case dict_get girls_yearly_dict name_lower of
                      None \<Rightarrow> nd1
                    | Some ys \<Rightarrow> nd1\<lparr>girls_yearly := Some ys\<rparr>)
         in (name_lower, nd2)))"

definition load_yearly_data :: "NamesDataset \<Rightarrow> yearly_frame \<Rightarrow> yearly_frame \<Rightarrow> NamesDataset" where
  "load_yearly_data ds boys_raw girls_raw =
     (if yearly_loaded ds then ds
      else
        (let boys_yearly_df = sort_key (\<lambda>r. fst (snd r)) boys_raw;
             girls_yearly_df = sort_key (\<lambda>r. fst (snd r)) girls_raw;
             boys_yearly_dict = build_yearly_dict boys_yearly_df;
             girls_yearly_dict = build_yearly_dict girls_yearly_df
         in ds\<lparr>names := map (populate boys_yearly_dict girls_yearly_dict) (names ds),
                yearly_loaded := True\<rparr>))"

subsection \<open>Ranks\<close>

text \<open>The comprehension \<^verbatim>\<open>{name.name: rank + 1 for rank, name in enumerate(xs)}\<close>.\<close>

definition rank_dict :: "NameData list \<Rightarrow> (string, int) dict" where
  "rank_dict xs = dict_of_pairs (map (\<lambda>(rank, nd). (name nd, int rank + 1)) (enumerate 0 xs))"

text \<open>
  The loop that fills \<^verbatim>\<open>_ranks_cache\<close>. The three subscripts are evaluated in the order
  of the keyword arguments; a missing key raises and leaves the cache as filled so far.
\<close>

fun fill_ranks ::
  "(string, int) dict \<Rightarrow> (string, int) dict \<Rightarrow> (string, int) dict \<Rightarrow> NameData list \<Rightarrow>
     (string, Ranks) dict \<Rightarrow> (string, Ranks) dict \<times> error option" where
  "fill_ranks overall_ranks boys_ranks girls_ranks [] cache = (cache, None)"
| "fill_ranks overall_ranks boys_ranks girls_ranks (name_data # rest) cache =
     (case dict_index overall_ranks (name name_data) of
        Inl e \<Rightarrow> (cache, Some e)
      | Inr ov \<Rightarrow>
     (case dict_index boys_ranks (name name_data) of
        Inl e \<Rightarrow> (cache, Some e)
      | Inr bv \<Rightarrow>
     (case dict_index girls_ranks (name name_data) of
        Inl e \<Rightarrow> (cache, Some e)
      | Inr gv \<Rightarrow>
          fill_ranks overall_ranks boys_ranks girls_ranks rest
            (dict_set (name name_data) \<lparr>overall = ov, boys = bv, girls = gv\<rparr> cache))))"

definition compute_ranks :: "NamesDataset \<Rightarrow> NamesDataset \<times> error option" where
  "compute_ranks ds =
     (let all_names = dict_values (names ds);
          by_total = sorted_desc total_count all_names;
          overall_ranks = rank_dict by_total;
          by_boys = sorted_desc boys_total all_names;
          boys_ranks = rank_dict by_boys;
          by_girls = sorted_desc girls_total all_names;
          girls_ranks = rank_dict by_girls
      in (case fill_ranks overall_ranks boys_ranks girls_ranks all_names [] of
            (cache, err) \<Rightarrow> (ds\<lparr>ranks_cache := Some cache\<rparr>, err)))"

text \<open>The comprehension \<^verbatim>\<open>[(name, self._ranks_cache[name.name]) for name in all_names]\<close>.\<close>

fun with_ranks :: "(string, Ranks) dict \<Rightarrow> NameData list \<Rightarrow> error + (NameData \<times> Ranks) list" where
  "with_ranks cache [] = Inr []"
| "with_ranks cache (nd # rest) =
     (case dict_index cache (name nd) of
        Inl e \<Rightarrow> Inl e
      | Inr r \<Rightarrow> (case with_ranks cache rest of Inl e \<Rightarrow> Inl e | Inr rs \<Rightarrow> Inr ((nd, r) # rs)))"

definition get_ranked_names ::
  "NamesDataset \<Rightarrow> int \<Rightarrow> NamesDataset \<times> (error + (NameData \<times> Ranks) list)" where
  "get_ranked_names ds top_n =
     (case (if ranks_cache ds = None then compute_ranks ds else (ds, None)) of
        (ds1, Some e) \<Rightarrow> (ds1, Inl e)
      | (ds1, None) \<Rightarrow>
          (let all_names = sorted_desc total_count (dict_values (names ds1));
               all_names = (if top_n > 0 then slice_to top_n all_names else all_names)
           in (case ranks_cache ds1 of
                 None \<Rightarrow> (ds1, Inl TypeError)
               | Some cache \<Rightarrow> (ds1, with_ranks cache all_names))))"

section \<open>Operations on the data model\<close>

definition series :: "YearlyCount list \<Rightarrow> (int \<times> real) list" where
  "series yearly = map (\<lambda>yc. (year yc, count yc)) yearly"

definition get_time_series :: "NameData \<Rightarrow> string \<Rightarrow> (int \<times> real) list" where
  "get_time_series name_data gender =
     (if \<not> has_yearly_data name_data then []
      else if gender = ''boys'' then series (or_empty (boys_yearly name_data))
      else if gender = ''girls'' then series (or_empty (girls_yearly name_data))
      else
        (let boys_by_year = dict_of_pairs (series (or_empty (boys_yearly name_data)));
             girls_by_year = dict_of_pairs (series (or_empty (girls_yearly name_data)));
             all_years = sorted_list_of_set
                           (set (dict_keys boys_by_year) \<union> set (dict_keys girls_by_year))
         in map (\<lambda>y. (y, dict_get_default boys_by_year y 0 + dict_get_default girls_by_year y 0))
                all_years))"

fun score_years ::
  "int list \<Rightarrow> (int, real) dict \<Rightarrow> (int, real) dict \<Rightarrow> (int \<times> real) list \<Rightarrow> (int \<times> real) list" where
  "score_years [] boys_by_year girls_by_year result = result"
| "score_years (y # ys) boys_by_year girls_by_year result =
     (let boys_count = dict_get_default boys_by_year y 0;
          girls_count = dict_get_default girls_by_year y 0;
          total = boys_count + girls_count
      in score_years ys boys_by_year girls_by_year
           (if total > 0 then result @ [(y, (girls_count - boys_count) / total)] else result))"

definition calculate_yearly_gender_scores :: "NameData \<Rightarrow> (int \<times> real) list" where
  "calculate_yearly_gender_scores name_data =
     (if \<not> truthy (boys_yearly name_data) \<or> \<not> truthy (girls_yearly name_data) then []
      else
        (let boys_by_year = dict_of_pairs (series (or_empty (boys_yearly name_data)));
             girls_by_year = dict_of_pairs (series (or_empty (girls_yearly name_data)));
             all_years = sorted_list_of_set
                           (set (dict_keys boys_by_year) \<union> set (dict_keys girls_by_year))
         in score_years all_years boys_by_year girls_by_year []))"

definition filter_names_by_score ::
  "NameData list \<Rightarrow> (real \<times> real) option \<Rightarrow> int option \<Rightarrow> NameData list" where
  "filter_names_by_score nms score_range top_n =
     (let result = (case score_range of
                      None \<Rightarrow> nms
                    | Some (min_score, max_score) \<Rightarrow>
                        filter (\<lambda>n. min_score \<le> gender_score_float n \<and>
                                    gender_score_float n \<le> max_score) nms)
      in (case top_n of
            None \<Rightarrow> result
          | Some k \<Rightarrow> if k > 0 then slice_to k result else result))"

definition find_closest_to_score :: "NameData list \<Rightarrow> real \<Rightarrow> int \<Rightarrow> NameData list" where
  "find_closest_to_score nms target n =
     (let scored = map (\<lambda>nd. (nd, \<bar>float_sub (gender_score_float nd) target\<bar>)) nms;
          scored = sort_key snd scored
      in map fst (slice_to n scored))"

section \<open>The \<open>nearest\<close> command\<close>

text \<open>
  The command works on the module-level catalogue, which is passed in and returned. It
  prints to the console (the lines printed are returned) and hands the rows of its table to
  the renderer; the rows are the result. The parameter \<^verbatim>\<open>top\<close> is written \<open>top_n\<close>.
\<close>

definition target_error_message :: string where
  "target_error_message = ''[red]Error: target must be between -1.0 and 1.0[/red]''"

fun rows_with_ranks :: "(string, Ranks) dict \<Rightarrow> NameData list \<Rightarrow> error + (NameData \<times> Ranks) list" where
  "rows_with_ranks ranks_map [] = Inr []"
| "rows_with_ranks ranks_map (nd # rest) =
     (case dict_index ranks_map (name nd) of
        Inl e \<Rightarrow> Inl e
      | Inr r \<Rightarrow>
          (case rows_with_ranks ranks_map rest of Inl e \<Rightarrow> Inl e | Inr rs \<Rightarrow> Inr ((nd, r) # rs)))"

definition nearest ::
  "NamesDataset \<Rightarrow> real \<Rightarrow> int \<Rightarrow> int \<Rightarrow>
     NamesDataset \<times> string list \<times> (error + (NameData \<times> Ranks) list)" where
  "nearest dataset target n top_n =
     (if \<not> (- 1 \<le> target \<and> target \<le> 1)
      then (dataset, [target_error_message], Inl (SystemExit 1))
      else
        (case get_ranked_names dataset top_n of
           (dataset1, Inl e) \<Rightarrow> (dataset1, [], Inl e)
         | (dataset1, Inr names_with_ranks) \<Rightarrow>
             (let names_only = map fst names_with_ranks;
                  closest = find_closest_to_score names_only target n;
                  ranks_map = dict_of_pairs (map (\<lambda>(nd, r). (name nd, r)) names_with_ranks)
              in (dataset1, [], rows_with_ranks ranks_map closest))))"

section \<open>Notions used in the statements\<close>

text \<open>
  The value that a list of \<open>(key, value)\<close> pairs gives to a key: the value of the last pair
  with that key, and \<open>0\<close> when there is none. For a time series it is the count at a year,
  for a totals frame the total of a name.
\<close>

definition last_value :: "('k \<times> real) list \<Rightarrow> 'k \<Rightarrow> real" where
  "last_value ps k = (case filter (\<lambda>p. fst p = k) ps of [] \<Rightarrow> 0 | es \<Rightarrow> snd (last es))"

text \<open>The distance that \<open>find_closest_to_score\<close> sorts by: \<^verbatim>\<open>abs(gender_score - target)\<close>
  as the floats give it.\<close>

definition score_distance :: "real \<Rightarrow> NameData \<Rightarrow> real" where
  "score_distance target nd = \<bar>float_sub (gender_score_float nd) target\<bar>"

text \<open>The names of the two frames, and the entity that \<open>load\<close> builds for one of them.\<close>

definition raw_names :: "totals_frame \<Rightarrow> totals_frame \<Rightarrow> string set" where
  "raw_names boys_df girls_df = fst ` set boys_df \<union> fst ` set girls_df"

definition new_entity :: "totals_frame \<Rightarrow> totals_frame \<Rightarrow> string \<Rightarrow> NameData" where
  "new_entity boys_df girls_df nm =
     \<lparr>name = nm, boys_total = last_value boys_df nm, girls_total = last_value girls_df nm,
      boys_yearly = None, girls_yearly = None\<rparr>"

text \<open>
  The states of the catalogue that the program can reach: built by \<open>load\<close>, then changed
  only by \<open>load_yearly_data\<close> and by the rank cache that \<open>get_ranked_names\<close> fills.
\<close>

inductive reachable :: "NamesDataset \<Rightarrow> bool" where
  loaded: "reachable (load boys_df girls_df)"
| yearly: "reachable ds \<Longrightarrow> reachable (load_yearly_data ds boys_raw girls_raw)"
| ranked: "reachable ds \<Longrightarrow> reachable (fst (get_ranked_names ds top_n))"

text \<open>Every storage key is the lower-cased display name of its entity, and the keys are
  distinct; a cache that is present has an entry for every display name.\<close>

definition names_wf :: "NamesDataset \<Rightarrow> bool" where
  "names_wf ds \<longleftrightarrow>
     distinct (dict_keys (names ds)) \<and> (\<forall>(k, nd) \<in> set (names ds). k = lower (name nd))"

definition cache_covers :: "NamesDataset \<Rightarrow> bool" where
  "cache_covers ds \<longleftrightarrow>
     (\<forall>cache. ranks_cache ds = Some cache \<longrightarrow>
        name ` set (get_all_names ds) \<subseteq> fst ` set cache)"

text \<open>The ranks that the three rank dictionaries give to an entity.\<close>

definition ranks_for :: "NameData list \<Rightarrow> NameData \<Rightarrow> Ranks" where
  "ranks_for all_names nd =
     \<lparr>overall = the (map_of (rank_dict (sorted_desc total_count all_names)) (name nd)),
      boys = the (map_of (rank_dict (sorted_desc boys_total all_names)) (name nd)),
      girls = the (map_of (rank_dict (sorted_desc girls_total all_names)) (name nd))\<rparr>"

text \<open>The cache that \<open>get_ranked_names\<close> reads: the one present, or the one it computes.\<close>

definition cache_of :: "NamesDataset \<Rightarrow> (string, Ranks) dict" where
  "cache_of ds =
     (case ranks_cache ds of
        Some cache \<Rightarrow> cache
      | None \<Rightarrow> map (\<lambda>nd. (name nd, ranks_for (get_all_names ds) nd)) (get_all_names ds))"

definition ranked_prefix :: "NamesDataset \<Rightarrow> int \<Rightarrow> NameData list" where
  "ranked_prefix ds top_n =
     (if top_n > 0 then take (nat top_n) (sorted_desc total_count (get_all_names ds))
      else sorted_desc total_count (get_all_names ds))"

text \<open>
  A dense ranking of a list of counts: the ranks are a permutation of \<open>1..k\<close> for the \<open>k\<close>
  counts, a higher count has a smaller rank, and of two equal counts the earlier one has the
  smaller rank.
\<close>

definition dense_ranking :: "real list \<Rightarrow> int list \<Rightarrow> bool" where
  "dense_ranking cs rs \<longleftrightarrow>
     length rs = length cs \<and> distinct rs \<and> set rs = {1..int (length cs)} \<and>
     (\<forall>i<length cs. \<forall>j<length cs.
        cs ! j < cs ! i \<or> (cs ! i = cs ! j \<and> i < j) \<longrightarrow> rs ! i < rs ! j)"

section \<open>Example inputs\<close>

definition example_entity :: NameData where
  "example_entity =
     \<lparr>name = ''Alex'', boys_total = 12, girls_total = 7,
      boys_yearly = Some [\<lparr>year = 1996, count = 5\<rparr>, \<lparr>year = 1998, count = 7\<rparr>],
      girls_yearly = Some [\<lparr>year = 1997, count = 3\<rparr>, \<lparr>year = 1998, count = 4\<rparr>]\<rparr>"

definition zero_entity :: NameData where
  "zero_entity =
     \<lparr>name = ''Sam'', boys_total = 0, girls_total = 0,
      boys_yearly = Some [\<lparr>year = 2000, count = 0\<rparr>],
      girls_yearly = Some [\<lparr>year = 2000, count = 0\<rparr>]\<rparr>"

definition closest_examples :: "NameData list" where
  "closest_examples =
     [\<lparr>name = ''A'', boys_total = 95, girls_total = 5, boys_yearly = None, girls_yearly = None\<rparr>,
      \<lparr>name = ''B'', boys_total = 55, girls_total = 45, boys_yearly = None, girls_yearly = None\<rparr>,
      \<lparr>name = ''C'', boys_total = 19, girls_total = 21, boys_yearly = None, girls_yearly = None\<rparr>,
      \<lparr>name = ''D'', boys_total = 40, girls_total = 60, boys_yearly = None, girls_yearly = None\<rparr>,
      \<lparr>name = ''E'', boys_total = 1, girls_total = 39, boys_yearly = None, girls_yearly = None\<rparr>]"

definition rounding_examples :: "NameData list" where
  "rounding_examples =
     [\<lparr>name = ''H'', boys_total = 10, girls_total = 90, boys_yearly = None, girls_yearly = None\<rparr>,
      \<lparr>name = ''L'', boys_total = 40, girls_total = 60, boys_yearly = None, girls_yearly = None\<rparr>]"

definition boys_only_entity :: NameData where
  "boys_only_entity =
     \<lparr>name = ''Bob'', boys_total = 5, girls_total = 0,
      boys_yearly = Some [\<lparr>year = 1996, count = 2\<rparr>, \<lparr>year = 1997, count = 3\<rparr>],
      girls_yearly = None\<rparr>"

definition collide_boys :: totals_frame where
  "collide_boys = [(''ALEX'', 5), (''Alex'', 1)]"

definition collide_girls :: totals_frame where
  "collide_girls = [(''Alex'', 3)]"

definition collide_boys_yearly :: yearly_frame where
  "collide_boys_yearly = [(''ALEX'', ''alex'', 1996, 5), (''Alex'', ''alex'', 1996, 1)]"

definition collide_girls_yearly :: yearly_frame where
  "collide_girls_yearly = [(''Alex'', ''alex'', 1996, 3)]"

definition example_boys :: totals_frame where
  "example_boys = [(''Bob'', 5), (''Alex'', 5)]"

definition example_girls :: totals_frame where
  "example_girls = [(''Alex'', 3), (''Cara'', 7)]"

definition example_boys_yearly :: yearly_frame where
  "example_boys_yearly =
     [(''Bob'', ''bob'', 1996, 2), (''Alex'', ''alex'', 1996, 1),
      (''Bob'', ''bob'', 1997, 3), (''Alex'', ''alex'', 1997, 4)]"

definition example_girls_yearly :: yearly_frame where
  "example_girls_yearly =
     [(''Alex'', ''alex'', 1996, 3), (''Cara'', ''cara'', 1996, 7)]"



section \<open>Totals and the gender score\<close>

text \<open>
  Claim C1. For every \<^verbatim>\<open>NameData\<close> entity, \<open>total_count\<close> is
  \<open>boys_total + girls_total\<close>; \<open>gender_score\<close> is
  \<open>(girls_total - boys_total) / total_count\<close> when \<open>total_count > 0\<close> and exactly \<open>0\<close>
  when \<open>total_count = 0\<close>; and when both totals are non-negative the score lies in
  \<open>[-1, 1]\<close>.
\<close>

theorem gender_score_spec:
  "total_count nd = boys_total nd + girls_total nd \<and>
   (0 < total_count nd \<longrightarrow>
      gender_score nd = (girls_total nd - boys_total nd) / total_count nd) \<and>
   (total_count nd = 0 \<longrightarrow> gender_score nd = 0) \<and>
   (0 \<le> boys_total nd \<and> 0 \<le> girls_total nd \<longrightarrow>
      - 1 \<le> gender_score nd \<and> gender_score nd \<le> 1)"
proof -
  have range: "- 1 \<le> gender_score nd \<and> gender_score nd \<le> 1"
    if nonneg: "0 \<le> boys_total nd" "0 \<le> girls_total nd"
  proof (cases "total_count nd = 0")
    case True
    then show ?thesis by (simp add: gender_score_def)
  next
    case False
    with nonneg have pos: "0 < boys_total nd + girls_total nd"
      by (simp add: total_count_def)
    have "- (boys_total nd + girls_total nd) \<le> girls_total nd - boys_total nd"
      and "girls_total nd - boys_total nd \<le> boys_total nd + girls_total nd"
      using nonneg by simp_all
    with pos False show ?thesis
      by (simp add: gender_score_def total_count_def pos_le_divide_eq pos_divide_le_eq)
  qed
  show ?thesis
    using range by (simp add: total_count_def gender_score_def)
qed

theorem gender_score_spec_witness:
  "0 < total_count example_entity \<and>
   0 \<le> boys_total example_entity \<and> 0 \<le> girls_total example_entity \<and>
   total_count example_entity = 19 \<and>
   gender_score example_entity = - 5 / 19 \<and>
   - 1 \<le> gender_score example_entity \<and> gender_score example_entity \<le> 1 \<and>
   total_count zero_entity = 0 \<and> gender_score zero_entity = 0"
proof -
  have b: "boys_total example_entity = 12" "girls_total example_entity = 7"
    "boys_total zero_entity = 0" "girls_total zero_entity = 0"
    by (simp_all add: example_entity_def zero_entity_def)
  from gender_score_spec [of example_entity] gender_score_spec [of zero_entity]
  show ?thesis
    unfolding b by simp
qed

section \<open>Dictionaries\<close>

lemma map_of_dict_set: "map_of (dict_set k v d) = (map_of d)(k \<mapsto> v)"
  by (induction d) auto

lemma keys_dict_set: "fst ` set (dict_set k v d) = insert k (fst ` set d)"
  by (induction d) auto

lemma distinct_dict_set: "distinct (map fst d) \<Longrightarrow> distinct (map fst (dict_set k v d))"
  by (induction d) (auto simp: keys_dict_set)

lemma dict_set_append: "k \<notin> fst ` set d \<Longrightarrow> dict_set k v d = d @ [(k, v)]"
  by (induction d) auto

lemma map_of_fold_dict_set:
  "map_of (fold (\<lambda>(k, v) d. dict_set k v d) ps d) = map_of (rev ps @ d)"
proof (induction ps arbitrary: d)
  case Nil
  then show ?case by simp
next
  case (Cons p ps)
  obtain k v where p: "p = (k, v)" by (cases p)
  show ?case
    by (simp add: p Cons.IH map_of_dict_set)
qed

lemma keys_fold_dict_set:
  "fst ` set (fold (\<lambda>(k, v) d. dict_set k v d) ps d) = fst ` set ps \<union> fst ` set d"
  by (induction ps arbitrary: d) (auto simp: keys_dict_set split: prod.splits)

lemma distinct_fold_dict_set:
  "distinct (map fst d) \<Longrightarrow> distinct (map fst (fold (\<lambda>(k, v) d. dict_set k v d) ps d))"
  by (induction ps arbitrary: d) (auto simp: distinct_dict_set split: prod.splits)

lemma map_of_dict_of_pairs: "map_of (dict_of_pairs ps) = map_of (rev ps)"
  by (simp add: dict_of_pairs_def map_of_fold_dict_set)

lemma keys_dict_of_pairs: "set (dict_keys (dict_of_pairs ps)) = fst ` set ps"
  by (simp add: dict_of_pairs_def dict_keys_def keys_fold_dict_set)

lemma distinct_dict_of_pairs: "distinct (dict_keys (dict_of_pairs ps))"
  by (simp add: dict_of_pairs_def dict_keys_def distinct_fold_dict_set)

lemma map_of_rev_last:
  "map_of (rev ps) k =
     (case filter (\<lambda>p. fst p = k) ps of [] \<Rightarrow> None | es \<Rightarrow> Some (snd (last es)))"
proof (induction ps rule: rev_induct)
  case Nil
  then show ?case by simp
next
  case (snoc p ps)
  then show ?case by (cases p) (auto split: list.splits)
qed

lemma dict_get_default_of_pairs: "dict_get_default (dict_of_pairs ps) k 0 = last_value ps k"
  by (simp add: dict_get_default_def last_value_def map_of_dict_of_pairs map_of_rev_last
      split: list.splits)

lemma last_value_distinct:
  "distinct (map fst ps) \<Longrightarrow> (k, v) \<in> set ps \<Longrightarrow> last_value ps k = v"
proof -
  assume d: "distinct (map fst ps)" and m: "(k, v) \<in> set ps"
  have "map_of (rev ps) k = Some v"
    using d m by (intro map_of_is_SomeI) (simp_all add: rev_map [symmetric])
  then show ?thesis
    by (cases "filter (\<lambda>p. fst p = k) ps") (simp_all add: last_value_def map_of_rev_last)
qed

lemma last_value_absent: "k \<notin> fst ` set ps \<Longrightarrow> last_value ps k = 0"
proof -
  assume "k \<notin> fst ` set ps"
  then have "filter (\<lambda>p. fst p = k) ps = []"
    by (auto simp: filter_empty_conv)
  then show ?thesis by (simp add: last_value_def)
qed

section \<open>Time series\<close>

text \<open>
  Claim C9. For every entity with yearly data, the combined time series lists, in ascending
  year order, exactly the years of the union of the boys and girls year sets, and its value
  at a year is the boys-series value plus the girls-series value for that year, \<open>0\<close> for a
  sex with no entry for the year. The boys series and the girls series are the entity's
  yearly sequences, an absent one counting as empty; they are what \<open>get_time_series\<close>
  returns for \<^verbatim>\<open>"boys"\<close> and \<^verbatim>\<open>"girls"\<close>. Where a sequence has several entries for one
  year, its value there is that of the last one. An entity without yearly data has the
  three series empty, so the statement holds of it as well.
\<close>

theorem combined_series:
  fixes nd :: NameData
  defines "B \<equiv> series (or_empty (boys_yearly nd))"
    and "G \<equiv> series (or_empty (girls_yearly nd))"
    and "C \<equiv> get_time_series nd ''combined''"
  shows "sorted_wrt (<) (map fst C) \<and>
         set (map fst C) = fst ` set B \<union> fst ` set G \<and>
         (\<forall>(y, v) \<in> set C. v = last_value B y + last_value G y) \<and>
         get_time_series nd ''boys'' = B \<and>
         get_time_series nd ''girls'' = G"
proof (cases "has_yearly_data nd")
  case False
  then have "boys_yearly nd = None" "girls_yearly nd = None"
    by (simp_all add: has_yearly_data_def)
  with False show ?thesis
    by (simp add: B_def G_def C_def get_time_series_def or_empty_def series_def)
next
  case True
  let ?years = "sorted_list_of_set (fst ` set B \<union> fst ` set G)"
  have bg: "get_time_series nd ''boys'' = B" "get_time_series nd ''girls'' = G"
    using True by (simp_all add: B_def G_def get_time_series_def)
  have C: "C = map (\<lambda>y. (y, last_value B y + last_value G y)) ?years"
    using True
    by (simp add: C_def B_def G_def get_time_series_def Let_def keys_dict_of_pairs
        dict_get_default_of_pairs)
  have "map fst C = ?years"
    by (simp add: C comp_def)
  then have "sorted_wrt (<) (map fst C)"
    and "set (map fst C) = fst ` set B \<union> fst ` set G"
    by simp_all
  moreover have "\<forall>(y, v) \<in> set C. v = last_value B y + last_value G y"
    by (auto simp: C)
  ultimately show ?thesis
    using bg by blast
qed

theorem combined_series_witness:
  "has_yearly_data example_entity \<and> has_yearly_data boys_only_entity \<and>
   get_time_series example_entity ''combined'' = [(1996, 5), (1997, 3), (1998, 11)] \<and>
   get_time_series boys_only_entity ''combined'' = [(1996, 2), (1997, 3)] \<and>
   set (map fst (get_time_series boys_only_entity ''combined'')) =
     fst ` set (series (or_empty (boys_yearly boys_only_entity))) \<union>
     fst ` set (series (or_empty (girls_yearly boys_only_entity))) \<and>
   last_value (series (or_empty (boys_yearly example_entity))) 1998
     + last_value (series (or_empty (girls_yearly example_entity))) 1998 = 11"
proof -
  have c: "get_time_series example_entity ''combined'' = [(1996, 5), (1997, 3), (1998, 11)]"
    "get_time_series boys_only_entity ''combined'' = [(1996, 2), (1997, 3)]"
    by code_simp+
  have h: "has_yearly_data example_entity" "has_yearly_data boys_only_entity"
    by code_simp+
  from combined_series [of example_entity]
  have "\<forall>(y, v) \<in> set (get_time_series example_entity ''combined'').
          v = last_value (series (or_empty (boys_yearly example_entity))) y
            + last_value (series (or_empty (girls_yearly example_entity))) y"
    by blast
  then have v: "(11::real) = last_value (series (or_empty (boys_yearly example_entity))) 1998
            + last_value (series (or_empty (girls_yearly example_entity))) 1998"
    unfolding c by simp
  from combined_series [of boys_only_entity]
  have "set (map fst (get_time_series boys_only_entity ''combined'')) =
     fst ` set (series (or_empty (boys_yearly boys_only_entity))) \<union>
     fst ` set (series (or_empty (girls_yearly boys_only_entity)))"
    by blast
  with c h v show ?thesis by simp
qed

section \<open>Yearly gender scores\<close>

lemma score_years_eq:
  "score_years ys b g acc =
     acc @ map (\<lambda>y. (y, (dict_get_default g y 0 - dict_get_default b y 0)
                         / (dict_get_default b y 0 + dict_get_default g y 0)))
               (filter (\<lambda>y. 0 < dict_get_default b y 0 + dict_get_default g y 0) ys)"
  by (induction ys arbitrary: acc) (simp_all add: Let_def)

lemma truthy_iff: "truthy x \<longleftrightarrow> x \<noteq> None \<and> x \<noteq> Some []"
  by (cases x) (simp_all add: truthy_def)

text \<open>
  Claim C3, as amended. \<open>calculate_yearly_gender_scores\<close> returns the empty sequence
  whenever the boys or the girls yearly sequence is absent or empty. Otherwise it lists, in
  ascending order, the years of the union of the two year sets whose combined count is
  positive, each with \<open>(girlsCount - boysCount) / totalCount\<close>; a year whose combined
  count is not positive is left out. The result is therefore empty also when both sequences
  are present and no year has a positive combined count.
\<close>

theorem yearly_gender_scores_spec:
  fixes nd :: NameData
  defines "B \<equiv> series (or_empty (boys_yearly nd))"
    and "G \<equiv> series (or_empty (girls_yearly nd))"
    and "R \<equiv> calculate_yearly_gender_scores nd"
  shows "(boys_yearly nd = None \<or> girls_yearly nd = None \<or>
          boys_yearly nd = Some [] \<or> girls_yearly nd = Some [] \<longrightarrow> R = []) \<and>
         (boys_yearly nd \<noteq> None \<and> girls_yearly nd \<noteq> None \<and>
          boys_yearly nd \<noteq> Some [] \<and> girls_yearly nd \<noteq> Some [] \<longrightarrow>
            sorted_wrt (<) (map fst R) \<and>
            set (map fst R) =
              {y \<in> fst ` set B \<union> fst ` set G. 0 < last_value B y + last_value G y} \<and>
            (\<forall>(y, s) \<in> set R.
               s = (last_value G y - last_value B y) / (last_value B y + last_value G y)))"
proof (cases "truthy (boys_yearly nd) \<and> truthy (girls_yearly nd)")
  case False
  then have "R = []"
    by (auto simp: R_def calculate_yearly_gender_scores_def)
  with False show ?thesis
    by (auto simp: truthy_iff)
next
  case True
  let ?years = "sorted_list_of_set (fst ` set B \<union> fst ` set G)"
  have R: "R = map (\<lambda>y. (y, (last_value G y - last_value B y) / (last_value B y + last_value G y)))
                 (filter (\<lambda>y. 0 < last_value B y + last_value G y) ?years)"
    using True
    by (simp add: R_def B_def G_def calculate_yearly_gender_scores_def Let_def score_years_eq
        keys_dict_of_pairs dict_get_default_of_pairs)
  have fstR: "map fst R = filter (\<lambda>y. 0 < last_value B y + last_value G y) ?years"
    by (simp add: R comp_def)
  have "sorted_wrt (<) (map fst R)"
    unfolding fstR by (intro sorted_wrt_filter) simp
  moreover have "set (map fst R) =
      {y \<in> fst ` set B \<union> fst ` set G. 0 < last_value B y + last_value G y}"
    unfolding fstR by auto
  moreover have "\<forall>(y, s) \<in> set R.
      s = (last_value G y - last_value B y) / (last_value B y + last_value G y)"
    by (auto simp: R)
  ultimately show ?thesis using True by (auto simp: truthy_iff)
qed

text \<open>
  The claim as stated, with the empty result exactly when a sequence is absent, fails for
  an entity whose two sequences both hold the single entry \<open>(2000, 0)\<close>.
\<close>

theorem yearly_gender_scores_counterexample:
  "boys_yearly zero_entity \<noteq> None \<and> girls_yearly zero_entity \<noteq> None \<and>
   calculate_yearly_gender_scores zero_entity = []"
  by code_simp

theorem yearly_gender_scores_spec_witness:
  "boys_yearly example_entity \<noteq> None \<and> girls_yearly example_entity \<noteq> None \<and>
   boys_yearly example_entity \<noteq> Some [] \<and> girls_yearly example_entity \<noteq> Some [] \<and>
   calculate_yearly_gender_scores example_entity = [(1996, - 1), (1997, 1), (1998, - 3 / 11)] \<and>
   sorted_wrt (<) (map fst (calculate_yearly_gender_scores example_entity))"
proof -
  have h: "boys_yearly example_entity \<noteq> None \<and> girls_yearly example_entity \<noteq> None \<and>
      boys_yearly example_entity \<noteq> Some [] \<and> girls_yearly example_entity \<noteq> Some []"
    by (simp add: example_entity_def)
  have v: "calculate_yearly_gender_scores example_entity = [(1996, - 1), (1997, 1), (1998, - 3 / 11)]"
    by code_simp
  from yearly_gender_scores_spec [of example_entity] h
  have "sorted_wrt (<) (map fst (calculate_yearly_gender_scores example_entity))"
    by blast
  with h v show ?thesis by blast
qed

section \<open>Names closest to a score\<close>

lemma insort_key_snd_graph:
  "insort_key snd (x, f x) (map (\<lambda>y. (y, f y)) ys) = map (\<lambda>y. (y, f y)) (insort_key f x ys)"
  by (induction ys) simp_all

lemma sort_key_snd_graph:
  "sort_key snd (map (\<lambda>y. (y, f y)) xs) = map (\<lambda>y. (y, f y)) (sort_key f xs)"
  by (induction xs) (simp_all add: insort_key_snd_graph)

lemma slice_to_map: "slice_to n (map f xs) = map f (slice_to n xs)"
  by (simp add: slice_to_def take_map)

lemma find_closest_eq:
  "find_closest_to_score nms target n = slice_to n (sort_key (score_distance target) nms)"
  by (simp add: find_closest_to_score_def Let_def sort_key_snd_graph slice_to_map comp_def
      score_distance_def [abs_def])

text \<open>With the distances of the entities at hand, the result is read off the sorted pairs.\<close>

lemma find_closest_by_values:
  assumes "map (score_distance target) nms = ks"
  shows "find_closest_to_score nms target n = slice_to n (map fst (sort_key snd (zip nms ks)))"
proof -
  have "zip nms ks = map (\<lambda>nd. (nd, score_distance target nd)) nms"
    unfolding assms [symmetric] by (induction nms) simp_all
  then show ?thesis
    by (simp add: find_closest_eq sort_key_snd_graph comp_def)
qed

lemma float_round_zero: "float_round 0 = 0"
  by (simp add: float_round_def)

text \<open>Where the sum and the difference of the totals are floats, as they are for whole
  counts below \<open>2 ^ 53\<close>, the float score is the exact score rounded once.\<close>

lemma gender_score_float_exact:
  assumes "float_round (boys_total nd + girls_total nd) = boys_total nd + girls_total nd"
    and "float_round (girls_total nd - boys_total nd) = girls_total nd - boys_total nd"
  shows "gender_score_float nd = float_round (gender_score nd)"
  using assms
  by (simp add: gender_score_float_def gender_score_def total_count_def float_add_def
      float_sub_def float_div_def float_round_zero)

lemma closest_example_scores:
  "map gender_score closest_examples = [- 9 / 10, - 1 / 10, 1 / 20, 1 / 5, 19 / 20]"
  by code_simp

lemma closest_example_distances:
  "map (score_distance 0) closest_examples =
     [8106479329266893 / 9007199254740992, 3602879701896397 / 36028797018963968,
      3602879701896397 / 72057594037927936, 3602879701896397 / 18014398509481984,
      4278419646001971 / 4503599627370496]"
  by code_simp

lemma closest_example_result:
  "map gender_score (find_closest_to_score closest_examples 0 3) = [1 / 20, - 1 / 10, 1 / 5]"
  "map name (find_closest_to_score closest_examples 0 3) = [''C'', ''B'', ''D'']"
  unfolding find_closest_by_values [OF closest_example_distances] by code_simp+

text \<open>
  Scores \<open>0.8\<close> and \<open>0.2\<close> are equally far from \<open>0.5\<close>, but the floats are not:
  \<^verbatim>\<open>0.8 - 0.5\<close> is \<^verbatim>\<open>0.30000000000000004\<close> and \<^verbatim>\<open>abs(0.2 - 0.5)\<close> is \<^verbatim>\<open>0.3\<close>, so the
  second entity comes first.
\<close>

lemma rounding_example_distances:
  "map (score_distance (1 / 2)) rounding_examples =
     [1351079888211149 / 4503599627370496, 5404319552844595 / 18014398509481984]"
  by code_simp

lemma find_closest_rounding:
  "map gender_score rounding_examples = [4 / 5, 1 / 5]"
  "map name (find_closest_to_score rounding_examples (1 / 2) 2) = [''L'', ''H'']"
  unfolding find_closest_by_values [OF rounding_example_distances] by code_simp+

text \<open>
  Claim C4, as amended. For every sequence of entities, every target and every
  \<open>n \<ge> 0\<close>, \<open>find_closest_to_score\<close> takes \<open>abs(gender_score - target)\<close> of every entity,
  sorts the entities ascending by that distance with a stable sort, so that entities at
  equal distance keep their original relative order, and returns the first \<open>n\<close> of them.
  For entities scored \<open>[-0.9, -0.1, 0.05, 0.2, 0.95]\<close>, target \<open>0.0\<close> and \<open>n = 3\<close> the
  result is scored \<open>[0.05, -0.1, 0.2]\<close>. The distance is the one the floats give.
\<close>

theorem find_closest_spec:
  assumes "0 \<le> n"
  shows "(\<exists>ordered.
            sorted (map (score_distance target) ordered) \<and>
            (\<forall>d. filter (\<lambda>nd. score_distance target nd = d) ordered =
                 filter (\<lambda>nd. score_distance target nd = d) nms) \<and>
            length ordered = length nms \<and>
            find_closest_to_score nms target n = take (nat n) ordered) \<and>
         map gender_score closest_examples = [- 9 / 10, - 1 / 10, 1 / 20, 1 / 5, 19 / 20] \<and>
         map gender_score (find_closest_to_score closest_examples 0 3) = [1 / 20, - 1 / 10, 1 / 5]"
proof (intro exI conjI allI)
  let ?o = "sort_key (score_distance target) nms"
  show "sorted (map (score_distance target) ?o)" by (rule sorted_sort_key)
  show "filter (\<lambda>nd. score_distance target nd = d) ?o =
        filter (\<lambda>nd. score_distance target nd = d) nms" for d
    by (rule sort_key_stable)
  show "length ?o = length nms" by simp
  show "find_closest_to_score nms target n = take (nat n) ?o"
    using assms by (simp add: find_closest_eq slice_to_def)
  show "map gender_score closest_examples = [- 9 / 10, - 1 / 10, 1 / 20, 1 / 5, 19 / 20]"
    by (rule closest_example_scores)
  show "map gender_score (find_closest_to_score closest_examples 0 3) = [1 / 20, - 1 / 10, 1 / 5]"
    by (rule closest_example_result)
qed

text \<open>
  The claim as stated, for every \<open>n\<close>, fails at \<open>n = -1\<close>: of five entities the four
  closest are returned, the slice \<^verbatim>\<open>[:-1]\<close> of the sorted list.
\<close>

theorem find_closest_counterexample:
  "length closest_examples = 5 \<and>
   map name (find_closest_to_score closest_examples 0 (- 1)) = [''C'', ''B'', ''D'', ''A'']"
  unfolding find_closest_by_values [OF closest_example_distances] by code_simp

theorem find_closest_spec_witness:
  "(0::int) \<le> 3 \<and>
   (\<exists>ordered. length ordered = 5 \<and>
      sorted (map (score_distance 0) ordered) \<and>
      find_closest_to_score closest_examples 0 3 = take 3 ordered) \<and>
   map name (find_closest_to_score closest_examples 0 3) = [''C'', ''B'', ''D'']"
proof -
  have len: "length closest_examples = 5"
    by (simp add: closest_examples_def)
  have n: "(0::int) \<le> 3" by simp
  from find_closest_spec [OF n, of 0 closest_examples]
  have "\<exists>ordered. length ordered = 5 \<and>
      sorted (map (score_distance 0) ordered) \<and>
      find_closest_to_score closest_examples 0 3 = take 3 ordered"
    unfolding len by auto
  then show ?thesis
    using closest_example_result(2) by simp
qed

section \<open>Rejecting a target outside the score range\<close>

text \<open>
  Claim C5. For every target gender score outside \<open>[-1, 1]\<close> the nearest-to-score
  operation, the \<open>nearest\<close> command, rejects the input before any computation over the
  entities: the catalogue is returned as it was given, ranks not computed, the only line
  printed is the message naming the accepted range, and the command exits with status 1.
\<close>

theorem nearest_rejects_target:
  "target < - 1 \<or> 1 < target \<Longrightarrow>
     nearest dataset target n top_n = (dataset, [target_error_message], Inl (SystemExit 1)) \<and>
     target_error_message = ''[red]Error: target must be between -1.0 and 1.0[/red]''"
  by (auto simp: nearest_def target_error_message_def)

theorem nearest_rejects_target_witness:
  "((2::real) < - 1 \<or> (1::real) < 2) \<and>
   nearest (load example_boys example_girls) 2 25 1000 =
     (load example_boys example_girls,
      [''[red]Error: target must be between -1.0 and 1.0[/red]''], Inl (SystemExit 1))"
  using nearest_rejects_target [of 2 "load example_boys example_girls" 25 1000] by simp

text \<open>\<open>find_closest_to_score\<close> itself takes any target: the check belongs to the
  command.\<close>

lemma find_closest_unchecked:
  "find_closest_to_score [zero_entity] 2 1 = [zero_entity]"
  by code_simp

section \<open>Loading yearly data\<close>

lemma yearly_loaded_after: "yearly_loaded (load_yearly_data ds b g)"
  by (simp add: load_yearly_data_def Let_def)

text \<open>
  Claim C6. \<open>load_yearly_data\<close> is idempotent: on a dataset on which it has completed
  once, a second call with any sources changes nothing; the whole state, with every
  entity's totals and yearly sequences, is the state after the first call.
\<close>

theorem load_yearly_data_idempotent:
  "load_yearly_data (load_yearly_data ds b g) b' g' = load_yearly_data ds b g"
  using yearly_loaded_after [of ds b g] by (simp add: load_yearly_data_def [of "load_yearly_data ds b g"])

theorem load_yearly_data_idempotent_witness:
  "load_yearly_data (load example_boys example_girls) example_boys_yearly example_girls_yearly
     \<noteq> load example_boys example_girls \<and>
   load_yearly_data
     (load_yearly_data (load example_boys example_girls) example_boys_yearly example_girls_yearly)
     example_girls_yearly example_boys_yearly
   = load_yearly_data (load example_boys example_girls) example_boys_yearly example_girls_yearly \<and>
   load_yearly_data (load example_boys example_girls) example_girls_yearly example_boys_yearly
     \<noteq> load_yearly_data (load example_boys example_girls) example_boys_yearly example_girls_yearly"
proof -
  have 1: "load_yearly_data (load example_boys example_girls) example_boys_yearly example_girls_yearly
     \<noteq> load example_boys example_girls"
    by code_simp
  have 2: "load_yearly_data (load example_boys example_girls) example_girls_yearly example_boys_yearly
     \<noteq> load_yearly_data (load example_boys example_girls) example_boys_yearly example_girls_yearly"
    by code_simp
  show ?thesis
    using 1 2
      load_yearly_data_idempotent [of "load example_boys example_girls"
        example_boys_yearly example_girls_yearly example_girls_yearly example_boys_yearly]
    by simp
qed

section \<open>Building the catalogue\<close>

lemma names_load:
  "names (load boys_df girls_df) =
     dict_of_pairs (map (\<lambda>nm. (lower nm, new_entity boys_df girls_df nm))
                        (sorted_list_of_set (raw_names boys_df girls_df)))"
proof -
  have "names (load boys_df girls_df) =
      fold (\<lambda>nm. dict_set (lower nm) (new_entity boys_df girls_df nm))
        (sorted_list_of_set (raw_names boys_df girls_df)) []"
    by (simp add: load_def Let_def keys_dict_of_pairs dict_get_default_of_pairs
        new_entity_def raw_names_def)
  also have "\<dots> = dict_of_pairs (map (\<lambda>nm. (lower nm, new_entity boys_df girls_df nm))
                        (sorted_list_of_set (raw_names boys_df girls_df)))"
    by (simp add: dict_of_pairs_def fold_map comp_def)
  finally show ?thesis .
qed

lemma sorted_le_last:
  assumes "sorted xs" and "x \<in> set xs"
  shows "x \<le> last xs"
proof -
  from assms(2) obtain i where i: "i < length xs" "xs ! i = x"
    by (auto simp: in_set_conv_nth)
  then have "xs \<noteq> []" by auto
  then have "last xs = xs ! (length xs - 1)"
    by (rule last_conv_nth)
  moreover from assms(1) i have "xs ! i \<le> xs ! (length xs - 1)"
    by (intro sorted_nth_mono) auto
  ultimately show ?thesis using i by simp
qed

lemma dict_of_pairs_entry:
  assumes "(k, v) \<in> set (dict_of_pairs (map (\<lambda>x. (key x, mk x)) xs))"
  shows "filter (\<lambda>x. key x = k) xs \<noteq> [] \<and> v = mk (last (filter (\<lambda>x. key x = k) xs))"
proof -
  let ?ps = "map (\<lambda>x. (key x, mk x)) xs"
  have "distinct (map fst (dict_of_pairs ?ps))"
    using distinct_dict_of_pairs [of ?ps] by (simp add: dict_keys_def)
  then have "map_of (dict_of_pairs ?ps) k = Some v"
    using assms by (rule map_of_is_SomeI)
  then have m: "map_of (rev ?ps) k = Some v"
    by (simp add: map_of_dict_of_pairs)
  have f: "filter (\<lambda>p. fst p = k) ?ps = map (\<lambda>x. (key x, mk x)) (filter (\<lambda>x. key x = k) xs)"
    by (simp add: filter_map comp_def)
  show ?thesis
  proof (cases "filter (\<lambda>x. key x = k) xs = []")
    case True
    with m f show ?thesis by (simp add: map_of_rev_last)
  next
    case False
    then have "map (\<lambda>x. (key x, mk x)) (filter (\<lambda>x. key x = k) xs) \<noteq> []" by simp
    then obtain e es where es: "map (\<lambda>x. (key x, mk x)) (filter (\<lambda>x. key x = k) xs) = e # es"
      by (cases "map (\<lambda>x. (key x, mk x)) (filter (\<lambda>x. key x = k) xs)") auto
    have "Some v = Some (snd (last (map (\<lambda>x. (key x, mk x)) (filter (\<lambda>x. key x = k) xs))))"
      using m unfolding map_of_rev_last f es by simp
    with False show ?thesis by (simp add: last_map)
  qed
qed

lemma load_entry:
  assumes "(k, nd) \<in> set (names (load boys_df girls_df))"
  shows "k = lower (name nd) \<and> name nd \<in> raw_names boys_df girls_df \<and>
         (\<forall>nm \<in> raw_names boys_df girls_df. lower nm = k \<longrightarrow> nm \<le> name nd) \<and>
         nd = new_entity boys_df girls_df (name nd)"
proof -
  let ?L = "sorted_list_of_set (raw_names boys_df girls_df)"
  let ?F = "filter (\<lambda>nm. lower nm = k) ?L"
  have fin: "finite (raw_names boys_df girls_df)"
    by (simp add: raw_names_def)
  from assms have ne: "?F \<noteq> []" and nd: "nd = new_entity boys_df girls_df (last ?F)"
    using dict_of_pairs_entry [of k nd lower "new_entity boys_df girls_df" ?L]
    by (simp_all add: names_load)
  have nm: "name nd = last ?F"
    by (simp add: nd new_entity_def)
  from ne have "last ?F \<in> set ?F" by (rule last_in_set)
  then have in_raw: "last ?F \<in> raw_names boys_df girls_df" and low: "lower (last ?F) = k"
    using fin by simp_all
  have "sorted ?F"
    by (intro sorted_wrt_filter) simp
  then have "\<forall>x \<in> set ?F. x \<le> last ?F"
    by (blast intro: sorted_le_last)
  then have "\<forall>x \<in> raw_names boys_df girls_df. lower x = k \<longrightarrow> x \<le> last ?F"
    using fin by simp
  with in_raw low nm nd show ?thesis by simp
qed

lemma load_keys:
  "distinct (dict_keys (names (load boys_df girls_df)))"
  "set (dict_keys (names (load boys_df girls_df))) = lower ` raw_names boys_df girls_df"
   by (simp_all add: names_load distinct_dict_of_pairs keys_dict_of_pairs raw_names_def image_image)


text \<open>
  What \<open>load\<close> builds, for any two frames: one entity per lower-cased name, stored under
  it; the entity is the one built for the greatest spelling, in code-point order, of the
  names with that lower-cased form, and its totals are the totals of the rows spelt
  exactly so (the last such row of a frame, \<open>0\<close> when the frame has none).
\<close>

lemma load_entities:
  fixes boys_df girls_df :: totals_frame
  defines "ds \<equiv> load boys_df girls_df"
    and "raw \<equiv> fst ` set boys_df \<union> fst ` set girls_df"
  shows "distinct (dict_keys (names ds)) \<and>
         set (dict_keys (names ds)) = lower ` raw \<and>
         (\<forall>(k, nd) \<in> set (names ds).
            k = lower (name nd) \<and> name nd \<in> raw \<and>
            (\<forall>nm \<in> raw. lower nm = k \<longrightarrow> nm \<le> name nd) \<and>
            boys_total nd = last_value boys_df (name nd) \<and>
            girls_total nd = last_value girls_df (name nd) \<and>
            boys_yearly nd = None \<and> girls_yearly nd = None)"
proof (intro conjI)
  show "distinct (dict_keys (names ds))"
    unfolding ds_def by (rule load_keys)
  show "set (dict_keys (names ds)) = lower ` raw"
    unfolding ds_def raw_def by (simp add: load_keys raw_names_def)
  show "\<forall>(k, nd) \<in> set (names ds).
            k = lower (name nd) \<and> name nd \<in> raw \<and>
            (\<forall>nm \<in> raw. lower nm = k \<longrightarrow> nm \<le> name nd) \<and>
            boys_total nd = last_value boys_df (name nd) \<and>
            girls_total nd = last_value girls_df (name nd) \<and>
            boys_yearly nd = None \<and> girls_yearly nd = None"
  proof (clarify, intro conjI)
    fix k nd
    assume "(k, nd) \<in> set (names ds)"
    then have e: "k = lower (name nd) \<and> name nd \<in> raw_names boys_df girls_df \<and>
         (\<forall>nm \<in> raw_names boys_df girls_df. lower nm = k \<longrightarrow> nm \<le> name nd) \<and>
         nd = new_entity boys_df girls_df (name nd)"
      unfolding ds_def by (rule load_entry)
    then have n: "nd = new_entity boys_df girls_df (name nd)" by simp
    show "k = lower (name nd)" using e by simp
    show "name nd \<in> raw" using e by (simp add: raw_def raw_names_def)
    show "\<forall>nm \<in> raw. lower nm = k \<longrightarrow> nm \<le> name nd"
      using e by (simp add: raw_def raw_names_def)
    show "boys_total nd = last_value boys_df (name nd)"
      by (subst n) (simp add: new_entity_def)
    show "girls_total nd = last_value girls_df (name nd)"
      by (subst n) (simp add: new_entity_def)
    show "boys_yearly nd = None"
      by (subst n) (simp add: new_entity_def)
    show "girls_yearly nd = None"
      by (subst n) (simp add: new_entity_def)
  qed
qed

text \<open>
  The claim as stated fails for a boys source with the rows \<open>Alex\<close> and \<open>alex\<close>, in that
  order: the first occurrence is \<open>Alex\<close>, the entity kept is the one built for
  \<open>alex\<close>.
\<close>

text \<open>
  Claim C2. For every pair of sources, \<open>load\<close> builds one entity per distinct lower-cased
  name, with \<open>boys_total\<close> taken from the boys source and \<open>girls_total\<close> from the girls
  source, \<open>0\<close> for a source without the name, and the display name keeps the casing of the
  first occurrence. The code misses this where two spellings share a lower-cased form. With
  the boys rows \<open>ALEX\<close> (5) and \<open>Alex\<close> (1) and the girls row \<open>Alex\<close> (3), the one entity
  \<open>alex\<close> is named \<open>Alex\<close>, not after the first occurrence, and its \<open>boys_total\<close> is 1:
  the 5 of \<open>ALEX\<close> is lost. \<open>load_yearly_data\<close>, which groups the same rows by lower-cased
  name, gives that entity the yearly counts of both spellings.
\<close>

theorem load_drops_spelling:
  "map fst collide_boys = [''ALEX'', ''Alex''] \<and>
   map lower (map fst collide_boys) = [''alex'', ''alex''] \<and>
   names (load collide_boys collide_girls) =
     [(''alex'', \<lparr>name = ''Alex'', boys_total = 1, girls_total = 3,
                  boys_yearly = None, girls_yearly = None\<rparr>)] \<and>
   names (load_yearly_data (load collide_boys collide_girls)
            collide_boys_yearly collide_girls_yearly) =
     [(''alex'', \<lparr>name = ''Alex'', boys_total = 1, girls_total = 3,
                  boys_yearly = Some [\<lparr>year = 1996, count = 5\<rparr>, \<lparr>year = 1996, count = 1\<rparr>],
                  girls_yearly = Some [\<lparr>year = 1996, count = 3\<rparr>]\<rparr>)]"
  by code_simp

section \<open>Reachable catalogues\<close>

lemma names_wf_distinct_names:
  assumes "names_wf ds"
  shows "distinct (map name (get_all_names ds))"
proof -
  from assms have d: "distinct (map fst (names ds))"
    and k: "\<forall>e \<in> set (names ds). fst e = lower (name (snd e))"
    by (auto simp: names_wf_def dict_keys_def)
  have "inj_on (\<lambda>e. name (snd e)) (set (names ds))"
  proof (rule inj_onI)
    fix a b
    assume a: "a \<in> set (names ds)" and b: "b \<in> set (names ds)"
      and eq: "name (snd a) = name (snd b)"
    from a b eq k have "fst a = fst b" by simp
    with d a b show "a = b"
      by (metis eq_key_imp_eq_value prod.collapse)
  qed
  moreover from d have "distinct (names ds)"
    by (simp add: distinct_map)
  ultimately have "distinct (map (\<lambda>e. name (snd e)) (names ds))"
    by (simp add: distinct_map)
  then show ?thesis
    by (simp add: get_all_names_def dict_values_def comp_def)
qed

lemma names_wf_load: "names_wf (load boys_df girls_df)"
  unfolding names_wf_def using load_keys(1) load_entry by blast

lemma populate_keeps:
  "fst (populate b g e) = fst e"
  "name (snd (populate b g e)) = name (snd e)"
  "boys_total (snd (populate b g e)) = boys_total (snd e)"
  "girls_total (snd (populate b g e)) = girls_total (snd e)"
  by (cases e; simp add: populate_def Let_def split: option.splits)+

lemma names_load_yearly_data:
  "map fst (names (load_yearly_data ds b g)) = map fst (names ds)"
  "map (name \<circ> snd) (names (load_yearly_data ds b g)) = map (name \<circ> snd) (names ds)"
  "map (boys_total \<circ> snd) (names (load_yearly_data ds b g)) = map (boys_total \<circ> snd) (names ds)"
  "map (girls_total \<circ> snd) (names (load_yearly_data ds b g)) = map (girls_total \<circ> snd) (names ds)"
  by (simp_all add: load_yearly_data_def Let_def populate_keeps comp_def)

lemma ranks_cache_load_yearly_data:
  "ranks_cache (load_yearly_data ds b g) = ranks_cache ds"
  by (simp add: load_yearly_data_def Let_def)

lemma names_wf_load_yearly_data:
  assumes "names_wf ds"
  shows "names_wf (load_yearly_data ds b g)"
proof -
  have "\<forall>e \<in> set (names (load_yearly_data ds b g)). fst e = lower (name (snd e))"
  proof (cases "yearly_loaded ds")
    case True
    with assms show ?thesis by (auto simp: load_yearly_data_def names_wf_def)
  next
    case False
    with assms show ?thesis
      by (auto simp: load_yearly_data_def Let_def names_wf_def populate_keeps)
  qed
  with assms show ?thesis
    by (auto simp: names_wf_def dict_keys_def names_load_yearly_data)
qed

section \<open>Computing ranks\<close>

lemma rank_dict_pairs:
  "rank_dict xs = dict_of_pairs (map (\<lambda>i. (name (xs ! i), int i + 1)) [0..<length xs])"
proof -
  have "map (\<lambda>(rank, nd). (name nd, int rank + 1)) (enumerate 0 xs) =
        map (\<lambda>i. (name (xs ! i), int i + 1)) [0..<length xs]"
    by (rule nth_equalityI) (simp_all add: nth_enumerate_eq)
  then show ?thesis by (simp add: rank_dict_def)
qed

lemma rank_dict_keys: "fst ` set (rank_dict xs) = name ` set xs"
proof -
  have "fst ` set (rank_dict xs) = (\<lambda>i. name (xs ! i)) ` {0..<length xs}"
    using keys_dict_of_pairs [of "map (\<lambda>i. (name (xs ! i), int i + 1)) [0..<length xs]"]
    by (simp add: rank_dict_pairs dict_keys_def image_image)
  also have "\<dots> = name ` (nth xs ` {0..<length xs})"
    by (simp add: image_image)
  also have "\<dots> = name ` set xs"
    using nth_image [of "length xs" xs] by simp
  finally show ?thesis .
qed

lemma rank_dict_nth:
  assumes "distinct (map name xs)" and "i < length xs"
  shows "map_of (rank_dict xs) (name (xs ! i)) = Some (int i + 1)"
proof -
  let ?ps = "map (\<lambda>i. (name (xs ! i), int i + 1)) [0..<length xs]"
  have "map fst ?ps = map name xs"
    by (rule nth_equalityI) simp_all
  with assms(1) have "distinct (map fst (rev ?ps))"
    by (simp add: rev_map [symmetric])
  moreover have "(name (xs ! i), int i + 1) \<in> set (rev ?ps)"
    using assms(2) by (auto simp: image_iff)
  ultimately have "map_of (rev ?ps) (name (xs ! i)) = Some (int i + 1)"
    by (rule map_of_is_SomeI)
  then show ?thesis
    by (simp add: rank_dict_pairs map_of_dict_of_pairs)
qed

lemma dict_index_present:
  "k \<in> fst ` set d \<Longrightarrow> dict_index d k = Inr (the (map_of d k))"
  by (cases "map_of d k") (auto simp: dict_index_def map_of_eq_None_iff)

lemma fill_ranks_total:
  assumes "name ` set xs \<subseteq> fst ` set ov" "name ` set xs \<subseteq> fst ` set bv"
    "name ` set xs \<subseteq> fst ` set gv"
  shows "fill_ranks ov bv gv xs cache =
     (fold (\<lambda>nd c. dict_set (name nd)
              \<lparr>overall = the (map_of ov (name nd)), boys = the (map_of bv (name nd)),
               girls = the (map_of gv (name nd))\<rparr> c) xs cache, None)"
  using assms by (induction xs arbitrary: cache) (simp_all add: dict_index_present)

lemma fold_dict_set_distinct:
  assumes "distinct (map key xs)" and "key ` set xs \<inter> fst ` set d = {}"
  shows "fold (\<lambda>x c. dict_set (key x) (mk x) c) xs d = d @ map (\<lambda>x. (key x, mk x)) xs"
  using assms
proof (induction xs arbitrary: d)
  case Nil
  then show ?case by simp
next
  case (Cons x xs)
  from Cons.prems have "key x \<notin> fst ` set d" by auto
  then have s: "dict_set (key x) (mk x) d = d @ [(key x, mk x)]"
    by (rule dict_set_append)
  have "key ` set xs \<inter> fst ` set (d @ [(key x, mk x)]) = {}"
    using Cons.prems by auto
  with Cons.prems Cons.IH [of "d @ [(key x, mk x)]"] s show ?case by simp
qed

lemma compute_ranks_eq:
  assumes "distinct (map name (get_all_names ds))"
  shows "compute_ranks ds =
     (ds\<lparr>ranks_cache :=
          Some (map (\<lambda>nd. (name nd, ranks_for (get_all_names ds) nd)) (get_all_names ds))\<rparr>,
      None)"
proof -
  let ?all = "dict_values (names ds)"
  have sub: "name ` set ?all \<subseteq> fst ` set (rank_dict (sorted_desc f ?all))" for f
    by (simp add: rank_dict_keys sorted_desc_def)
  have "fill_ranks (rank_dict (sorted_desc total_count ?all))
          (rank_dict (sorted_desc boys_total ?all)) (rank_dict (sorted_desc girls_total ?all))
          ?all [] =
        (fold (\<lambda>nd c. dict_set (name nd) (ranks_for ?all nd) c) ?all [], None)"
    using sub by (simp add: fill_ranks_total ranks_for_def [abs_def])
  moreover have "fold (\<lambda>nd c. dict_set (name nd) (ranks_for ?all nd) c) ?all [] =
        [] @ map (\<lambda>nd. (name nd, ranks_for ?all nd)) ?all"
    using assms by (intro fold_dict_set_distinct) (simp_all add: get_all_names_def)
  ultimately show ?thesis
    by (simp add: compute_ranks_def Let_def get_all_names_def)
qed

lemma with_ranks_total:
  assumes "name ` set xs \<subseteq> fst ` set cache"
  shows "with_ranks cache xs = Inr (map (\<lambda>nd. (nd, the (map_of cache (name nd)))) xs)"
  using assms by (induction xs) (simp_all add: dict_index_present)

lemma get_ranked_names_eq:
  assumes "names_wf ds" and "cache_covers ds"
  shows "get_ranked_names ds top_n =
     (ds\<lparr>ranks_cache := Some (cache_of ds)\<rparr>,
      Inr (map (\<lambda>nd. (nd, the (map_of (cache_of ds) (name nd)))) (ranked_prefix ds top_n)))"
    and "name ` set (get_all_names ds) \<subseteq> fst ` set (cache_of ds)"
proof -
  have d: "distinct (map name (get_all_names ds))"
    using assms(1) by (rule names_wf_distinct_names)
  show cov: "name ` set (get_all_names ds) \<subseteq> fst ` set (cache_of ds)"
  proof (cases "ranks_cache ds")
    case None
    then show ?thesis by (simp add: cache_of_def image_image)
  next
    case (Some c)
    with assms(2) show ?thesis by (simp add: cache_of_def cache_covers_def)
  qed
  have pre: "name ` set (ranked_prefix ds top_n) \<subseteq> fst ` set (cache_of ds)"
  proof -
    have "set (ranked_prefix ds top_n) \<subseteq> set (get_all_names ds)"
      using set_take_subset [of "nat top_n" "sorted_desc total_count (get_all_names ds)"]
      by (auto simp: ranked_prefix_def sorted_desc_def)
    with cov show ?thesis by blast
  qed
  have wr: "with_ranks (cache_of ds) (ranked_prefix ds top_n) =
      Inr (map (\<lambda>nd. (nd, the (map_of (cache_of ds) (name nd)))) (ranked_prefix ds top_n))"
    using pre by (rule with_ranks_total)
  have sl: "(if top_n > 0 then slice_to top_n xs else xs) =
      (if top_n > 0 then take (nat top_n) xs else xs)" for xs :: "NameData list"
    by (simp add: slice_to_def)
  show "get_ranked_names ds top_n =
     (ds\<lparr>ranks_cache := Some (cache_of ds)\<rparr>,
      Inr (map (\<lambda>nd. (nd, the (map_of (cache_of ds) (name nd)))) (ranked_prefix ds top_n)))"
  proof (cases "ranks_cache ds")
    case None
    then have c: "compute_ranks ds = (ds\<lparr>ranks_cache := Some (cache_of ds)\<rparr>, None)"
      by (simp add: compute_ranks_eq [OF d] cache_of_def)
    have "get_ranked_names ds top_n =
        (ds\<lparr>ranks_cache := Some (cache_of ds)\<rparr>,
         with_ranks (cache_of ds) (ranked_prefix ds top_n))"
      using None
      by (simp add: get_ranked_names_def c Let_def sl ranked_prefix_def get_all_names_def)
    with wr show ?thesis by simp
  next
    case (Some c)
    then have "get_ranked_names ds top_n =
        (ds\<lparr>ranks_cache := Some (cache_of ds)\<rparr>,
         with_ranks (cache_of ds) (ranked_prefix ds top_n))"
      by (simp add: get_ranked_names_def cache_of_def Let_def sl ranked_prefix_def
          get_all_names_def)
    with wr show ?thesis by simp
  qed
qed

lemma reachable_invariant:
  "reachable ds \<Longrightarrow> names_wf ds \<and> cache_covers ds"
proof (induction rule: reachable.induct)
  case (loaded boys_df girls_df)
  show ?case
    by (simp add: names_wf_load cache_covers_def) (simp add: load_def Let_def)
next
  case (yearly ds boys_raw girls_raw)
  then have "names_wf (load_yearly_data ds boys_raw girls_raw)"
    by (simp add: names_wf_load_yearly_data)
  moreover have "cache_covers (load_yearly_data ds boys_raw girls_raw)"
    using yearly.IH names_load_yearly_data(2) [of ds boys_raw girls_raw]
    by (simp add: cache_covers_def ranks_cache_load_yearly_data get_all_names_def
        dict_values_def image_comp [symmetric] del: map_map)
       (metis image_set list.set_map map_map)
  ultimately show ?case ..
next
  case (ranked ds top_n)
  then have eq: "fst (get_ranked_names ds top_n) = ds\<lparr>ranks_cache := Some (cache_of ds)\<rparr>"
    and cov: "name ` set (get_all_names ds) \<subseteq> fst ` set (cache_of ds)"
    by (simp_all add: get_ranked_names_eq)
  from ranked.IH have "names_wf (ds\<lparr>ranks_cache := Some (cache_of ds)\<rparr>)"
    by (simp add: names_wf_def)
  moreover from cov have "cache_covers (ds\<lparr>ranks_cache := Some (cache_of ds)\<rparr>)"
    by (simp add: cache_covers_def get_all_names_def)
  ultimately show ?case by (simp add: eq)
qed

lemma reachable_names_wf: "reachable ds \<Longrightarrow> names_wf ds"
  by (simp add: reachable_invariant)

lemma reachable_cache_covers: "reachable ds \<Longrightarrow> cache_covers ds"
  by (simp add: reachable_invariant)

section \<open>Ranks are dense\<close>

lemma filter_split:
  "filter P ys = us @ a # vs \<Longrightarrow> \<exists>us' vs'. ys = us' @ a # vs' \<and> filter P vs' = vs"
proof (induction ys arbitrary: us)
  case Nil
  then show ?case by simp
next
  case (Cons y ys)
  show ?case
  proof (cases "P y \<and> us = []")
    case True
    with Cons.prems have "y # ys = [] @ a # ys \<and> filter P ys = vs" by simp
    then show ?thesis by blast
  next
    case False
    then have "\<exists>us2. filter P ys = us2 @ a # vs"
      using Cons.prems by (cases "P y"; cases us) auto
    then obtain us' vs' where "ys = us' @ a # vs'" "filter P vs' = vs"
      using Cons.IH by blast
    then have "y # ys = (y # us') @ a # vs' \<and> filter P vs' = vs" by simp
    then show ?thesis by blast
  qed
qed

lemma stable_order:
  assumes "i < j" and "j < length xs" and "h (xs ! i) = h (xs ! j)"
  shows "\<exists>us vs. sort_key h xs = us @ xs ! i # vs \<and> xs ! j \<in> set vs"
proof -
  let ?P = "\<lambda>x. h x = h (xs ! i)"
  from assms have i: "i < length xs" by simp
  have dec: "xs = take i xs @ xs ! i # drop (Suc i) xs"
    using i by (rule id_take_nth_drop)
  have "drop (Suc i) xs ! (j - Suc i) = xs ! j"
    using assms by simp
  moreover have "j - Suc i < length (drop (Suc i) xs)"
    using assms by simp
  ultimately have mem: "xs ! j \<in> set (drop (Suc i) xs)"
    using nth_mem [of "j - Suc i" "drop (Suc i) xs"] by simp
  have "filter ?P xs = filter ?P (take i xs @ xs ! i # drop (Suc i) xs)"
    using dec by simp
  then have "filter ?P xs = filter ?P (take i xs) @ xs ! i # filter ?P (drop (Suc i) xs)"
    by simp
  then have "filter ?P (sort_key h xs) =
      filter ?P (take i xs) @ xs ! i # filter ?P (drop (Suc i) xs)"
    by (simp add: sort_key_stable)
  then have "\<exists>us vs. sort_key h xs = us @ xs ! i # vs \<and>
      filter ?P vs = filter ?P (drop (Suc i) xs)"
    by (rule filter_split)
  then obtain us vs where s: "sort_key h xs = us @ xs ! i # vs"
    and f: "filter ?P vs = filter ?P (drop (Suc i) xs)"
    by (elim exE conjE)
  from mem assms(3) have "xs ! j \<in> set (filter ?P (drop (Suc i) xs))" by simp
  with f have "xs ! j \<in> set (filter ?P vs)" by simp
  then have "xs ! j \<in> set vs" by simp
  with s show ?thesis by (intro exI conjI)
qed

lemma int_ranks_set: "(\<lambda>p. int p + 1) ` {0..<k} = {1..int k}"
proof (intro equalityI subsetI)
  fix x assume "x \<in> (\<lambda>p. int p + 1) ` {0..<k}"
  then show "x \<in> {1..int k}" by auto
next
  fix x assume x: "x \<in> {1..int k}"
  then have "x = int (nat (x - 1)) + 1" and "nat (x - 1) \<in> {0..<k}" by auto
  then show "x \<in> (\<lambda>p. int p + 1) ` {0..<k}" by (rule image_eqI)
qed

lemma ranking_dense:
  fixes xs :: "NameData list" and f :: "NameData \<Rightarrow> real"
  assumes dn: "distinct (map name xs)"
  shows "dense_ranking (map f xs)
           (map (\<lambda>nd. the (map_of (rank_dict (sorted_desc f xs)) (name nd))) xs)"
proof -
  define S where "S = sorted_desc f xs"
  define g :: "NameData \<Rightarrow> int" where "g = (\<lambda>nd. the (map_of (rank_dict S) (name nd)))"
  have setS: "set S = set xs" and lenS: "length S = length xs"
    by (simp_all add: S_def sorted_desc_def)
  from dn have dx: "distinct xs" and inj: "inj_on name (set xs)"
    by (simp_all add: distinct_map)
  then have dS: "distinct S" and dnS: "distinct (map name S)"
    by (simp_all add: distinct_map S_def sorted_desc_def)
  have gS: "g (S ! p) = int p + 1" if "p < length S" for p
    using rank_dict_nth [OF dnS that] by (simp add: g_def)
  have mapS: "map g S = map (\<lambda>p. int p + 1) [0..<length S]"
    by (rule nth_equalityI) (simp_all add: gS)
  have "distinct (map g S)"
    unfolding mapS by (simp add: distinct_map inj_on_def)
  then have "inj_on g (set S)"
    by (simp add: distinct_map)
  then have dist: "distinct (map g xs)"
    using dx setS by (simp add: distinct_map)
  have "set (map g xs) = set (map g S)"
    by (simp add: setS)
  also have "\<dots> = {1..int (length xs)}"
    unfolding mapS by (simp add: int_ranks_set lenS)
  finally have range: "set (map g xs) = {1..int (length xs)}" .
  have sortedS: "sorted (map (\<lambda>x. - f x) S)"
    by (simp add: S_def sorted_desc_def)
  have order: "g (xs ! i) < g (xs ! j)"
    if i: "i < length xs" and j: "j < length xs"
      and c: "f (xs ! j) < f (xs ! i) \<or> (f (xs ! i) = f (xs ! j) \<and> i < j)" for i j
  proof -
    from i setS have "xs ! i \<in> set S" by simp
    then obtain p where p: "p < length S" "S ! p = xs ! i"
      by (auto simp: in_set_conv_nth)
    from j setS have "xs ! j \<in> set S" by simp
    then obtain q where q: "q < length S" "S ! q = xs ! j"
      by (auto simp: in_set_conv_nth)
    have "p < q"
    proof (cases "f (xs ! j) < f (xs ! i)")
      case True
      show ?thesis
      proof (rule ccontr)
        assume "\<not> p < q"
        then have "q \<le> p" by simp
        with sortedS p(1) have "map (\<lambda>x. - f x) S ! q \<le> map (\<lambda>x. - f x) S ! p"
          by (intro sorted_nth_mono) simp_all
        with p q True show False by simp
      qed
    next
      case False
      with c have eq: "f (xs ! i) = f (xs ! j)" and lt: "i < j" by simp_all
      from eq have "- f (xs ! i) = - f (xs ! j)" by simp
      with lt j obtain us vs where s: "S = us @ xs ! i # vs" and m: "xs ! j \<in> set vs"
        using stable_order [of i j xs "\<lambda>x. - f x"] unfolding S_def sorted_desc_def by blast
      from m obtain k where k: "k < length vs" "vs ! k = xs ! j"
        by (auto simp: in_set_conv_nth)
      have "S ! length us = xs ! i" by (simp add: s)
      moreover have "length us < length S" by (simp add: s)
      ultimately have pe: "p = length us"
        using dS p by (metis nth_eq_iff_index_eq)
      have "S ! (length us + Suc k) = xs ! j"
        unfolding s using k by (simp add: nth_append)
      moreover have "length us + Suc k < length S" using k by (simp add: s)
      ultimately have "q = length us + Suc k"
        using dS q by (metis nth_eq_iff_index_eq)
      with pe show ?thesis by simp
    qed
    with gS [OF p(1)] gS [OF q(1)] p(2) q(2) show ?thesis by simp
  qed
  have "\<forall>i<length (map f xs). \<forall>j<length (map f xs).
      map f xs ! j < map f xs ! i \<or> (map f xs ! i = map f xs ! j \<and> i < j) \<longrightarrow>
      map g xs ! i < map g xs ! j"
  proof (intro allI impI)
    fix i j
    assume "i < length (map f xs)" "j < length (map f xs)"
      and "map f xs ! j < map f xs ! i \<or> (map f xs ! i = map f xs ! j \<and> i < j)"
    then have "i < length xs" "j < length xs"
      and "f (xs ! j) < f (xs ! i) \<or> (f (xs ! i) = f (xs ! j) \<and> i < j)"
      by simp_all
    then have "g (xs ! i) < g (xs ! j)" by (rule order)
    with \<open>i < length xs\<close> \<open>j < length xs\<close> show "map g xs ! i < map g xs ! j" by simp
  qed
  moreover have "length (map g xs) = length (map f xs)" by simp
  moreover have "set (map g xs) = {1..int (length (map f xs))}"
    using range by simp
  ultimately have "dense_ranking (map f xs) (map g xs)"
    unfolding dense_ranking_def using dist by blast
  then show ?thesis
    by (simp add: g_def S_def)
qed

lemma ranks_for_overall:
  "map overall (dict_values (map (\<lambda>nd. (name nd, ranks_for xs nd)) xs)) =
   map (\<lambda>nd. the (map_of (rank_dict (sorted_desc total_count xs)) (name nd))) xs"
  "map boys (dict_values (map (\<lambda>nd. (name nd, ranks_for xs nd)) xs)) =
   map (\<lambda>nd. the (map_of (rank_dict (sorted_desc boys_total xs)) (name nd))) xs"
  "map girls (dict_values (map (\<lambda>nd. (name nd, ranks_for xs nd)) xs)) =
   map (\<lambda>nd. the (map_of (rank_dict (sorted_desc girls_total xs)) (name nd))) xs"
  by (simp_all add: dict_values_def comp_def ranks_for_def)

text \<open>
  Claim C7. After ranks are computed for a catalogue of \<open>k\<close> entities, each of the three
  rank dimensions (overall, boys, girls) is on its own a dense 1-based ranking: a
  permutation of \<open>1..k\<close> without gaps or duplicates, rank 1 going to the highest count of
  the dimension and ties broken by the order of the catalogue, which a stable sort keeps.
  The cache lists the display names in catalogue order, so its \<open>i\<close>-th entry holds the ranks
  of the \<open>i\<close>-th entity.
\<close>

theorem ranks_dense:
  assumes "reachable ds"
  shows "\<exists>cache.
           compute_ranks ds = (ds\<lparr>ranks_cache := Some cache\<rparr>, None) \<and>
           dict_keys cache = map name (get_all_names ds) \<and>
           dense_ranking (map total_count (get_all_names ds)) (map overall (dict_values cache)) \<and>
           dense_ranking (map boys_total (get_all_names ds)) (map boys (dict_values cache)) \<and>
           dense_ranking (map girls_total (get_all_names ds)) (map girls (dict_values cache))"
proof -
  let ?all = "get_all_names ds"
  let ?cache = "map (\<lambda>nd. (name nd, ranks_for ?all nd)) ?all"
  from assms have d: "distinct (map name ?all)"
    by (intro names_wf_distinct_names reachable_names_wf)
  have "compute_ranks ds = (ds\<lparr>ranks_cache := Some ?cache\<rparr>, None)"
    using d by (rule compute_ranks_eq)
  moreover have "dict_keys ?cache = map name ?all"
    by (simp add: dict_keys_def comp_def)
  moreover have "dense_ranking (map total_count ?all) (map overall (dict_values ?cache))"
    unfolding ranks_for_overall using d by (rule ranking_dense)
  moreover have "dense_ranking (map boys_total ?all) (map boys (dict_values ?cache))"
    unfolding ranks_for_overall using d by (rule ranking_dense)
  moreover have "dense_ranking (map girls_total ?all) (map girls (dict_values ?cache))"
    unfolding ranks_for_overall using d by (rule ranking_dense)
  ultimately show ?thesis by blast
qed

lemma example_compute_ranks:
  "compute_ranks (load example_boys example_girls) =
     (load example_boys example_girls
        \<lparr>ranks_cache := Some [(''Alex'', \<lparr>overall = 1, boys = 1, girls = 2\<rparr>),
                               (''Bob'', \<lparr>overall = 3, boys = 2, girls = 3\<rparr>),
                               (''Cara'', \<lparr>overall = 2, boys = 3, girls = 1\<rparr>)]\<rparr>, None)"
  by code_simp

lemma example_counts:
  "map total_count (get_all_names (load example_boys example_girls)) = [8, 5, 7]"
  "map boys_total (get_all_names (load example_boys example_girls)) = [5, 5, 0]"
  "map girls_total (get_all_names (load example_boys example_girls)) = [3, 0, 7]"
  by code_simp+

theorem ranks_dense_witness:
  "reachable (load example_boys example_girls) \<and>
   dense_ranking [8, 5, 7] [1, 3, 2] \<and>
   dense_ranking [5, 5, 0] [1, 2, 3] \<and>
   dense_ranking [3, 0, 7] [2, 3, 1]"
proof -
  have r: "reachable (load example_boys example_girls)"
    by (rule reachable.loaded)
  from ranks_dense [OF r] obtain cache where
    c: "compute_ranks (load example_boys example_girls) =
          (load example_boys example_girls\<lparr>ranks_cache := Some cache\<rparr>, None)"
    and d: "dense_ranking (map total_count (get_all_names (load example_boys example_girls)))
              (map overall (dict_values cache))"
      "dense_ranking (map boys_total (get_all_names (load example_boys example_girls)))
              (map boys (dict_values cache))"
      "dense_ranking (map girls_total (get_all_names (load example_boys example_girls)))
              (map girls (dict_values cache))"
    by blast
  from c have "ranks_cache (fst (compute_ranks (load example_boys example_girls))) = Some cache"
    by simp
  then have "cache = [(''Alex'', \<lparr>overall = 1, boys = 1, girls = 2\<rparr>),
                      (''Bob'', \<lparr>overall = 3, boys = 2, girls = 3\<rparr>),
                      (''Cara'', \<lparr>overall = 2, boys = 3, girls = 1\<rparr>)]"
    unfolding example_compute_ranks by simp
  with d r show ?thesis
    by (simp add: example_counts dict_values_def)
qed

section \<open>Ranked names\<close>









section \<open>The cache lookup cannot miss\<close>

text \<open>
  Claim C10. Each storage key is the lower-cased display name of its entity, so distinct
  entities have distinct display names; after \<open>_compute_ranks\<close> runs the cache has exactly
  one entry for every entity's display name; and the lookup
  \<^verbatim>\<open>self._ranks_cache[name.name]\<close> of \<open>get_ranked_names\<close> succeeds for every returned
  entity: the call returns its rows and never raises \<^verbatim>\<open>KeyError\<close>.
\<close>

theorem ranks_lookup_succeeds:
  assumes "reachable ds"
  shows "(\<forall>(k, nd) \<in> set (names ds). k = lower (name nd)) \<and>
         distinct (map name (get_all_names ds)) \<and>
         (\<exists>cache. compute_ranks ds = (ds\<lparr>ranks_cache := Some cache\<rparr>, None) \<and>
                  dict_keys cache = map name (get_all_names ds)) \<and>
         (\<forall>top_n. \<exists>ds' rows. get_ranked_names ds top_n = (ds', Inr rows))"
proof (intro conjI allI)
  from assms have wf: "names_wf ds" and cc: "cache_covers ds"
    by (simp_all add: reachable_invariant)
  from wf show "\<forall>(k, nd) \<in> set (names ds). k = lower (name nd)"
    by (simp add: names_wf_def)
  from wf show d: "distinct (map name (get_all_names ds))"
    by (rule names_wf_distinct_names)
  have "compute_ranks ds =
      (ds\<lparr>ranks_cache :=
           Some (map (\<lambda>nd. (name nd, ranks_for (get_all_names ds) nd)) (get_all_names ds))\<rparr>,
       None)"
    using d by (rule compute_ranks_eq)
  moreover have "dict_keys (map (\<lambda>nd. (name nd, ranks_for (get_all_names ds) nd))
      (get_all_names ds)) = map name (get_all_names ds)"
    by (simp add: dict_keys_def comp_def)
  ultimately show "\<exists>cache. compute_ranks ds = (ds\<lparr>ranks_cache := Some cache\<rparr>, None) \<and>
      dict_keys cache = map name (get_all_names ds)"
    by blast
  show "\<exists>ds' rows. get_ranked_names ds top_n = (ds', Inr rows)" for top_n
    using get_ranked_names_eq(1) [OF wf cc, of top_n] by blast
qed

lemma example_ranked:
  "snd (get_ranked_names
     (load_yearly_data (load example_boys example_girls) example_boys_yearly example_girls_yearly)
     2) =
   Inr [(\<lparr>name = ''Alex'', boys_total = 5, girls_total = 3,
          boys_yearly = Some [\<lparr>year = 1996, count = 1\<rparr>, \<lparr>year = 1997, count = 4\<rparr>],
          girls_yearly = Some [\<lparr>year = 1996, count = 3\<rparr>]\<rparr>,
         \<lparr>overall = 1, boys = 1, girls = 2\<rparr>),
        (\<lparr>name = ''Cara'', boys_total = 0, girls_total = 7, boys_yearly = None,
          girls_yearly = Some [\<lparr>year = 1996, count = 7\<rparr>]\<rparr>,
         \<lparr>overall = 2, boys = 3, girls = 1\<rparr>)]"
  by code_simp

theorem ranks_lookup_succeeds_witness:
  "reachable
     (load_yearly_data (load example_boys example_girls) example_boys_yearly example_girls_yearly) \<and>
   distinct (map name (get_all_names
     (load_yearly_data (load example_boys example_girls) example_boys_yearly example_girls_yearly))) \<and>
   (\<exists>rows. snd (get_ranked_names
     (load_yearly_data (load example_boys example_girls) example_boys_yearly example_girls_yearly)
     2) = Inr rows \<and> map (name \<circ> fst) rows = [''Alex'', ''Cara''])"
proof -
  have r: "reachable
     (load_yearly_data (load example_boys example_girls) example_boys_yearly example_girls_yearly)"
    by (intro reachable.yearly reachable.loaded)
  from ranks_lookup_succeeds [OF r]
  have "distinct (map name (get_all_names
     (load_yearly_data (load example_boys example_girls) example_boys_yearly example_girls_yearly)))"
    by blast
  with r show ?thesis
    by (simp add: example_ranked)
qed

section \<open>An accepted target\<close>

text \<open>For a target inside the range the command goes on to rank the catalogue, which
  fills the cache; the rejection of the other targets comes before that.\<close>

lemma nearest_accepts_target:
  assumes "reachable ds" and "- 1 \<le> target" and "target \<le> 1"
  shows "fst (nearest ds target n top_n) = ds\<lparr>ranks_cache := Some (cache_of ds)\<rparr>"
proof -
  from assms(1) have wf: "names_wf ds" and cc: "cache_covers ds"
    by (simp_all add: reachable_invariant)
  show ?thesis
    using assms(2,3)
    by (simp add: nearest_def get_ranked_names_eq(1) [OF wf cc] Let_def)
qed

end
